theory Spec2Isabelle
  imports Complex_Main
begin

unbundle bit_operations_syntax

section \<open>b64d: configuration and constants (main.go, lines 15-44)\<close>

text \<open>
  Go strings are byte sequences; they are modelled as \<open>string\<close> (lists of 8-bit
  \<open>char\<close>s), so \<open>length\<close> is Go's \<open>len\<close>. Go's \<open>int\<close> counters never come near
  their 64-bit range here and are modelled as \<open>nat\<close>; the flag values \<open>minLength\<close> and
  \<open>maxSize\<close> may be negative and are \<open>int\<close>.
\<close>

definition maxFileSize :: int where
  "maxFileSize = 100 * 1024 * 1024"

definition maxMatches :: nat where
  "maxMatches = 10000"

definition minB64Length :: int where
  "minB64Length = 4"

definition chunkSize :: nat where
  "chunkSize = 64 * 1024"

record Config =
  urlSafe :: bool
  minLength :: int
  maxSize :: int
  verbose :: bool
  showOffset :: bool

text \<open>The flag defaults installed by \<open>init\<close>.\<close>

definition defaultConfig :: Config where
  "defaultConfig = \<lparr>urlSafe = False, minLength = minB64Length, maxSize = maxFileSize,
     verbose = False, showOffset = False\<rparr>"

datatype error =
    CorruptInputError
  | InvalidBase64
  | ErrTooLong
  | ReadError error
  | StatError
  | FileTooLarge nat int

section \<open>The two regular expressions (main.go, lines 33 and 35)\<close>

text \<open>
  \<open>stdB64Pattern\<close> is \<^verbatim>\<open>[A-Za-z0-9+/]{4,}={0,2}\<close> and \<open>urlB64Pattern\<close> is
  \<^verbatim>\<open>[A-Za-z0-9\-_]{4,}={0,2}\<close>. Both have the shape "at least four characters of a
  class, then at most two \<^verbatim>\<open>=\<close>", and \<^verbatim>\<open>=\<close> is in neither class. Go's regexp
  package matches leftmost-first with greedy repetition: at a start position the class
  repetition takes the whole run of class characters, the padding repetition takes up to two
  \<^verbatim>\<open>=\<close>, and nothing follows that could force backtracking; so a match exists at a
  position exactly when the run of class characters starting there has length at least 4.
  The classes are ASCII, so matching bytes is matching runes.
\<close>

definition isAlnum :: "char \<Rightarrow> bool" where
  "isAlnum c = (let n = (of_char c :: nat) in
     (65 \<le> n \<and> n \<le> 90) \<or> (97 \<le> n \<and> n \<le> 122) \<or> (48 \<le> n \<and> n \<le> 57))"

definition stdB64Class :: "char \<Rightarrow> bool" where
  "stdB64Class c = (isAlnum c \<or> c = CHR ''+'' \<or> c = CHR ''/'')"

definition urlB64Class :: "char \<Rightarrow> bool" where
  "urlB64Class c = (isAlnum c \<or> c = CHR ''-'' \<or> c = CHR ''_'')"

definition isPad :: "char \<Rightarrow> bool" where
  "isPad c = (c = CHR ''='')"

text \<open>The match of \<^verbatim>\<open>[cls]{4,}={0,2}\<close> anchored at the start of \<open>s\<close>, if there is one.\<close>

definition matchAt :: "(char \<Rightarrow> bool) \<Rightarrow> string \<Rightarrow> string option" where
  "matchAt cls s =
     (let run = takeWhile cls s in
      if length run < 4 then None
      else Some (run @ take 2 (takeWhile isPad (dropWhile cls s))))"

text \<open>
  \<open>Regexp.FindAllString(content, -1)\<close>: the successive non-overlapping matches, left to
  right. The search tries each start position in turn; after a match it resumes at the
  end of the match (matches of these patterns are never empty).
\<close>

function FindAllString :: "(char \<Rightarrow> bool) \<Rightarrow> string \<Rightarrow> string list" where
  "FindAllString cls [] = []"
| "FindAllString cls (c # cs) =
     (case matchAt cls (c # cs) of
        None \<Rightarrow> FindAllString cls cs
      | Some m \<Rightarrow> m # FindAllString cls (drop (length m) (c # cs)))"
  by pat_completeness auto
termination
  by (relation "measure (\<lambda>(cls, s). length s)")
     (auto simp: matchAt_def Let_def split: if_splits)

section \<open>isValidBase64Length and findBase64Patterns (main.go, lines 145-180)\<close>

text \<open>\<open>strings.TrimRight(s, cutset)\<close> removes every trailing byte that is in \<open>cutset\<close>.\<close>

definition TrimRight :: "string \<Rightarrow> string \<Rightarrow> string" where
  "TrimRight s cutset = rev (dropWhile (\<lambda>c. c \<in> set cutset) (rev s))"

definition isValidBase64Length :: "string \<Rightarrow> bool" where
  "isValidBase64Length s =
     (let s' = TrimRight s ''='';
          rem = length s' mod 4
      in rem = 0 \<or> rem = 2 \<or> rem = 3)"

text \<open>
  The body shared by the two \<open>for ... range\<close> loops of \<open>findBase64Patterns\<close>. The state is
  the slice \<open>matches\<close> and the map \<open>seen\<close>; a Go \<open>map[string]bool\<close> reads \<open>false\<close> at a
  missing key, so it is a function into \<open>bool\<close>.
\<close>

fun collectMatches :: "Config \<Rightarrow> string list \<Rightarrow> string list \<times> (string \<Rightarrow> bool)
    \<Rightarrow> string list \<times> (string \<Rightarrow> bool)" where
  "collectMatches cfg [] acc = acc"
| "collectMatches cfg (m # ms) (matches, seen) =
     (if minLength cfg \<le> int (length m) \<and> isValidBase64Length m then
        (if \<not> seen m then collectMatches cfg ms (matches @ [m], seen(m := True))
         else collectMatches cfg ms (matches, seen))
      else collectMatches cfg ms (matches, seen))"

definition findBase64Patterns :: "Config \<Rightarrow> string \<Rightarrow> string list" where
  "findBase64Patterns cfg content =
     (let acc = collectMatches cfg (FindAllString stdB64Class content) ([], \<lambda>_. False);
          acc' = (if urlSafe cfg
                  then collectMatches cfg (FindAllString urlB64Class content) acc
                  else acc)
      in fst acc')"

section \<open>encoding/base64: the four encodings and \<open>DecodeString\<close>\<close>

text \<open>
  The Go standard library's decoder, as \<open>decodeBase64\<close> calls it. An \<open>Encoding\<close> is its
  64-character alphabet and its padding character (\<open>NoPadding\<close> is \<open>None\<close>); all four
  encodings used are non-strict, so trailing bits are not checked.
\<close>

record Encoding =
  encode :: string
  padChar :: "char option"

definition encodeStd :: string where
  "encodeStd = ''ABCDEFGHIJKLMNOPQRSTUVWXYZabcdefghijklmnopqrstuvwxyz0123456789+/''"

definition encodeURL :: string where
  "encodeURL = ''ABCDEFGHIJKLMNOPQRSTUVWXYZabcdefghijklmnopqrstuvwxyz0123456789-_''"

definition StdEncoding :: Encoding where
  "StdEncoding = \<lparr>encode = encodeStd, padChar = Some (CHR ''='')\<rparr>"

definition URLEncoding :: Encoding where
  "URLEncoding = \<lparr>encode = encodeURL, padChar = Some (CHR ''='')\<rparr>"

definition RawStdEncoding :: Encoding where
  "RawStdEncoding = \<lparr>encode = encodeStd, padChar = None\<rparr>"

definition RawURLEncoding :: Encoding where
  "RawURLEncoding = \<lparr>encode = encodeURL, padChar = None\<rparr>"

text \<open>
  \<open>decodeMap[c]\<close> is the index of \<open>c\<close> in the alphabet; Go's sentinel \<open>0xFF\<close> for a byte
  outside the alphabet is \<open>None\<close>.
\<close>

definition decodeMap :: "Encoding \<Rightarrow> char \<Rightarrow> nat option" where
  "decodeMap enc c = map_of (zip (encode enc) [0..<length (encode enc)]) c"

definition isNewline :: "char \<Rightarrow> bool" where
  "isNewline c = (c = CHR 0x0A \<or> c = CHR 0x0D)"

text \<open>
  The conversion at the end of \<open>decodeQuantum\<close>: \<open>dlen\<close> sextets (missing ones are zero)
  make \<open>dlen - 1\<close> bytes.
\<close>

definition assemble :: "nat \<Rightarrow> nat \<Rightarrow> nat \<Rightarrow> nat \<Rightarrow> nat" where
  "assemble a b c d = push_bit 18 a OR push_bit 12 b OR push_bit 6 c OR d"

fun quantumBytes :: "nat list \<Rightarrow> string" where
  "quantumBytes [a, b, c, d] =
     (let val = assemble a b c d
      in [char_of (drop_bit 16 val), char_of (drop_bit 8 val), char_of val])"
| "quantumBytes [a, b, c] =
     (let val = assemble a b c 0
      in [char_of (drop_bit 16 val), char_of (drop_bit 8 val)])"
| "quantumBytes [a, b] =
     (let val = assemble a b 0 0
      in [char_of (drop_bit 16 val)])"
| "quantumBytes _ = []"

text \<open>
  The reading loop of \<open>decodeQuantum\<close>: \<open>dbuf\<close> holds the sextets read so far (\<open>j\<close> is its
  length), the string is \<open>src[si:]\<close>. The result is the sextets of the quantum and the
  input left after it.
\<close>

fun decodeQuantum :: "Encoding \<Rightarrow> nat list \<Rightarrow> string \<Rightarrow> error + (nat list \<times> string)" where
  "decodeQuantum enc dbuf [] =
     (if length dbuf = 4 then Inr (dbuf, [])
      else if length dbuf = 0 then Inr ([], [])
      else if length dbuf = 1 \<or> padChar enc \<noteq> None then Inl CorruptInputError
      else Inr (dbuf, []))"
| "decodeQuantum enc dbuf (inp # src) =
     (if length dbuf = 4 then Inr (dbuf, inp # src)
      else case decodeMap enc inp of
        Some out \<Rightarrow> decodeQuantum enc (dbuf @ [out]) src
      | None \<Rightarrow>
          if isNewline inp then decodeQuantum enc dbuf src
          else if padChar enc \<noteq> Some inp then Inl CorruptInputError
          else if length dbuf < 2 then Inl CorruptInputError
          else
            (case (if length dbuf = 2
                   then (case dropWhile isNewline src of
                           [] \<Rightarrow> None
                         | c # r \<Rightarrow> if padChar enc \<noteq> Some c then None else Some r)
                   else Some src) of
               None \<Rightarrow> Inl CorruptInputError
             | Some r \<Rightarrow>
                 if dropWhile isNewline r \<noteq> [] then Inl CorruptInputError
                 else Inr (dbuf, [])))"

lemma decodeQuantum_shorter:
  "decodeQuantum enc dbuf src = Inr (d, rest) \<Longrightarrow>
     length rest \<le> length src \<and> (length dbuf < 4 \<longrightarrow> src \<noteq> [] \<longrightarrow> length rest < length src)"
proof (induction enc dbuf src rule: decodeQuantum.induct)
  case (1 enc dbuf)
  then show ?case by (auto split: if_splits)
next
  case (2 enc dbuf inp src)
  show ?case
  proof (cases "length dbuf = 4")
    case True
    with "2.prems" show ?thesis by simp
  next
    case False
    note nf = this
    show ?thesis
    proof (cases "decodeMap enc inp")
      case (Some out)
      with nf "2.prems" have "decodeQuantum enc (dbuf @ [out]) src = Inr (d, rest)" by simp
      from "2.IH"(2)[OF nf Some] this show ?thesis by simp
    next
      case None
      show ?thesis
      proof (cases "isNewline inp")
        case True
        with nf None "2.prems" have "decodeQuantum enc dbuf src = Inr (d, rest)" by simp
        from "2.IH"(1)[OF nf None True] this show ?thesis by simp
      next
        case False
        with nf None "2.prems" have "rest = []"
          by (auto split: if_splits option.splits list.splits)
        then show ?thesis by simp
      qed
    qed
  qed
qed

text \<open>
  \<open>Encoding.Decode\<close>: quantum after quantum until the input is used up. (The library's
  8- and 4-byte fast paths produce what \<open>decodeQuantum\<close> produces and fall back to it.)
  \<open>DecodeString\<close> returns the decoded bytes and the error; the program looks at the
  bytes only when the error is nil.
\<close>

function Decode :: "Encoding \<Rightarrow> string \<Rightarrow> error + string" where
  "Decode enc src =
     (if src = [] then Inr []
      else case decodeQuantum enc [] src of
        Inl e \<Rightarrow> Inl e
      | Inr (dbuf, rest) \<Rightarrow>
          (case Decode enc rest of
             Inl e \<Rightarrow> Inl e
           | Inr out \<Rightarrow> Inr (quantumBytes dbuf @ out)))"
  by pat_completeness auto
termination
  by (relation "measure (\<lambda>(enc, src). length src)")
     (auto dest: decodeQuantum_shorter)

declare Decode.simps [simp del]

definition DecodeString :: "Encoding \<Rightarrow> string \<Rightarrow> error + string" where
  "DecodeString enc s = Decode enc s"

section \<open>decodeBase64 (main.go, lines 182-210)\<close>

text \<open>
  The \<open>if config.urlSafe\<close> block either returns a decoding (\<open>Some\<close>) or falls through
  (\<open>None\<close>) to the raw standard attempt.
\<close>

definition decodeBase64 :: "Config \<Rightarrow> string \<Rightarrow> error + string" where
  "decodeBase64 cfg s =
     (case DecodeString StdEncoding s of
        Inr decoded \<Rightarrow> Inr decoded
      | Inl _ \<Rightarrow>
          (case (if urlSafe cfg then
                   (case DecodeString URLEncoding s of
                      Inr decoded \<Rightarrow> Some decoded
                    | Inl _ \<Rightarrow>
                        (case DecodeString RawURLEncoding s of
                           Inr decoded \<Rightarrow> Some decoded
                         | Inl _ \<Rightarrow> None))
                 else None) of
             Some decoded \<Rightarrow> Inr decoded
           | None \<Rightarrow>
               (case DecodeString RawStdEncoding s of
                  Inr decoded \<Rightarrow> Inr decoded
                | Inl _ \<Rightarrow> Inl InvalidBase64)))"

section \<open>unicode/utf8 and unicode: what \<open>range s\<close>, \<open>IsPrint\<close> and \<open>IsSpace\<close> compute\<close>

text \<open>
  \<open>for _, r := range s\<close> decodes \<open>s\<close> as UTF-8, one rune per step; a byte that does not
  start a well-formed sequence yields \<open>RuneError\<close> (U+FFFD) and is one byte wide. Runes are
  modelled by their code points. \<open>first\<close> is the library's table of lead bytes: the length
  of the sequence and the range accepted for its second byte.
\<close>

definition RuneError :: nat where
  "RuneError = 0xFFFD"

definition first :: "nat \<Rightarrow> (nat \<times> nat \<times> nat) option" where
  "first b =
     (if 0xC2 \<le> b \<and> b \<le> 0xDF then Some (2, 0x80, 0xBF)
      else if b = 0xE0 then Some (3, 0xA0, 0xBF)
      else if b = 0xED then Some (3, 0x80, 0x9F)
      else if 0xE1 \<le> b \<and> b \<le> 0xEF then Some (3, 0x80, 0xBF)
      else if b = 0xF0 then Some (4, 0x90, 0xBF)
      else if 0xF1 \<le> b \<and> b \<le> 0xF3 then Some (4, 0x80, 0xBF)
      else if b = 0xF4 then Some (4, 0x80, 0x8F)
      else None)"

definition isCont :: "nat \<Rightarrow> bool" where
  "isCont b = (0x80 \<le> b \<and> b \<le> 0xBF)"

definition DecodeRuneInString :: "string \<Rightarrow> nat \<times> nat" where
  "DecodeRuneInString s =
     (case map of_char s of
        [] \<Rightarrow> (RuneError, 0)
      | s0 # t \<Rightarrow>
          if s0 < 0x80 then (s0, 1)
          else
            (case first s0 of
               None \<Rightarrow> (RuneError, 1)
             | Some (sz, lo, hi) \<Rightarrow>
                 if length s < sz then (RuneError, 1)
                 else if t ! 0 < lo \<or> hi < t ! 0 then (RuneError, 1)
                 else if sz \<le> 2 then
                   (push_bit 6 (s0 AND 0x1F) OR (t ! 0 AND 0x3F), 2)
                 else if \<not> isCont (t ! 1) then (RuneError, 1)
                 else if sz \<le> 3 then
                   (push_bit 12 (s0 AND 0x0F) OR push_bit 6 (t ! 0 AND 0x3F)
                      OR (t ! 1 AND 0x3F), 3)
                 else if \<not> isCont (t ! 2) then (RuneError, 1)
                 else
                   (push_bit 18 (s0 AND 0x07) OR push_bit 12 (t ! 0 AND 0x3F)
                      OR push_bit 6 (t ! 1 AND 0x3F) OR (t ! 2 AND 0x3F), 4)))"

lemma DecodeRuneInString_width:
  "s \<noteq> [] \<Longrightarrow> 1 \<le> snd (DecodeRuneInString s)"
  by (cases s) (auto simp: DecodeRuneInString_def Let_def split: option.splits)

text \<open>The runes a \<open>range\<close> loop over \<open>s\<close> visits, in order.\<close>

function runes :: "string \<Rightarrow> nat list" where
  "runes s =
     (if s = [] then []
      else fst (DecodeRuneInString s) # runes (drop (snd (DecodeRuneInString s)) s))"
  by pat_completeness auto
termination
proof (relation "measure length")
  fix s :: string
  assume "s \<noteq> []"
  with DecodeRuneInString_width[of s]
  show "(drop (snd (DecodeRuneInString s)) s, s) \<in> measure length"
    by (cases s) auto
qed simp

declare runes.simps [simp del]

text \<open>
  \<open>unicode.IsSpace\<close>: the Latin-1 cases of the library's switch, and Unicode's White_Space
  property above Latin-1.
\<close>

definition IsSpace :: "nat \<Rightarrow> bool" where
  "IsSpace r =
     (if r \<le> 0xFF then r \<in> {0x09, 0x0A, 0x0B, 0x0C, 0x0D, 0x20, 0x85, 0xA0}
      else r = 0x1680 \<or> (0x2000 \<le> r \<and> r \<le> 0x200A) \<or> r = 0x2028 \<or> r = 0x2029
           \<or> r = 0x202F \<or> r = 0x205F \<or> r = 0x3000)"

text \<open>
  \<open>unicode.IsPrint\<close>: letters, marks, numbers, punctuation, symbols and the ASCII space.
  In Latin-1 these are U+0020..U+007E and U+00A1..U+00FF without the soft hyphen U+00AD.
  Above Latin-1 the library consults its range tables \<open>PrintRanges\<close> (categories L, M, N,
  P, S of the Unicode database), which are data outside this repository: they are a
  parameter of the model.
\<close>

type_synonym RangeTable = "nat \<Rightarrow> bool"

definition IsPrint :: "RangeTable \<Rightarrow> nat \<Rightarrow> bool" where
  "IsPrint PrintRanges r =
     (if r \<le> 0xFF then (0x20 \<le> r \<and> r \<le> 0x7E) \<or> (0xA1 \<le> r \<and> r \<noteq> 0xAD)
      else PrintRanges r)"

section \<open>isValidOutput (main.go, lines 212-231)\<close>

text \<open>
  The loop over the runes of \<open>s\<close> with its counter \<open>printableCount\<close>; \<open>None\<close> is the
  \<open>return false\<close> inside the loop.
\<close>

fun countPrintable :: "RangeTable \<Rightarrow> nat list \<Rightarrow> nat \<Rightarrow> nat option" where
  "countPrintable PrintRanges [] printableCount = Some printableCount"
| "countPrintable PrintRanges (r # rs) printableCount =
     (if IsPrint PrintRanges r \<or> r = 0x0A \<or> r = 0x0D \<or> r = 0x09
      then countPrintable PrintRanges rs (printableCount + 1)
      else if \<not> IsSpace r then None
      else countPrintable PrintRanges rs printableCount)"

text \<open>
  The final test is \<open>float64(printableCount)/float64(len(s)) >= 0.75\<close>. Both counts are
  far below \<open>2^52\<close>, so the conversions are exact; IEEE division is correctly rounded and
  0.75 is a float, so the comparison holds exactly when it holds of the exact quotient,
  which is what the model compares. The denominator is \<open>len(s)\<close>, the number of bytes.
\<close>

definition isValidOutput :: "RangeTable \<Rightarrow> string \<Rightarrow> bool" where
  "isValidOutput PrintRanges s =
     (if s = [] then False
      else case countPrintable PrintRanges (runes s) 0 of
        None \<Rightarrow> False
      | Some printableCount \<Rightarrow> real printableCount / real (length s) \<ge> 0.75)"

section \<open>bufio.Scanner with the default split function \<open>ScanLines\<close>\<close>

text \<open>
  A token is the text up to the next newline, without one trailing carriage return; a last
  line without a newline is a token when it is not empty. The scanner was given a buffer of
  \<open>chunkSize\<close> bytes that may not grow: a line is found only if it and its newline fit the
  buffer, so a line of \<open>chunkSize\<close> or more bytes stops the scan with \<open>ErrTooLong\<close>. The
  reader is taken to deliver the whole input without an I/O error. The result is the
  tokens \<open>Scan\<close> delivers and the error \<open>scanner.Err()\<close> reports after them.
\<close>

definition dropCR :: "string \<Rightarrow> string" where
  "dropCR tok = (if tok \<noteq> [] \<and> last tok = CHR 0x0D then butlast tok else tok)"

definition notLF :: "char \<Rightarrow> bool" where
  "notLF c = (c \<noteq> CHR 0x0A)"

function scanTokens :: "string \<Rightarrow> string list \<times> error option" where
  "scanTokens data =
     (if data = [] then ([], None)
      else if chunkSize \<le> length (takeWhile notLF data) then ([], Some ErrTooLong)
      else case scanTokens (drop 1 (dropWhile notLF data)) of
        (toks, e) \<Rightarrow> (dropCR (takeWhile notLF data) # toks, e))"
  by pat_completeness auto
termination
proof (relation "measure length")
  fix data :: string
  assume "data \<noteq> []"
  have "length (dropWhile notLF data) \<le> length data"
    by (rule length_dropWhile_le)
  moreover from \<open>data \<noteq> []\<close> have "0 < length data"
    by simp
  ultimately have "length (dropWhile notLF data) - 1 < length data"
    by arith
  then show "(drop 1 (dropWhile notLF data), data) \<in> measure length"
    by simp
qed simp

declare scanTokens.simps [simp del]

section \<open>findAndDecode and processFile (main.go, lines 63-143)\<close>

text \<open>\<open>%d\<close> of a non-negative integer.\<close>

function showNat :: "nat \<Rightarrow> string" where
  "showNat n =
     (if n < 10 then [char_of (48 + n)]
      else showNat (n div 10) @ [char_of (48 + n mod 10)])"
  by pat_completeness auto
termination
  by (relation "measure id") auto

declare showNat.simps [simp del]

fun showError :: "error \<Rightarrow> string" where
  "showError InvalidBase64 = ''invalid base64''"
| "showError ErrTooLong = ''bufio.Scanner: token too long''"
| "showError (ReadError e) = ''read error: '' @ showError e"
| "showError CorruptInputError = ''illegal base64 data''"
| "showError StatError = ''cannot stat file''"
| "showError (FileTooLarge sz mx) = ''file too large''"

text \<open>
  The state of a run: what has been written to the two streams, and the local variables of
  \<open>findAndDecode\<close>. The last two fields are not variables of the program: \<open>decodeCalls\<close>
  records the argument of every call of \<open>decodeBase64\<close> and \<open>filterCalls\<close> the argument of
  every call of \<open>isValidOutput\<close>, in call order, so that statements about what reaches the
  decoder and the filter can be made. Nothing reads them.
\<close>

record Run =
  stdout :: string
  stderr :: string
  lineNum :: nat
  totalFound :: nat
  totalDecoded :: nat
  patterns :: "string list"
  decodeCalls :: "string list"
  filterCalls :: "string list"

definition initRun :: Run where
  "initRun = \<lparr>stdout = [], stderr = [], lineNum = 0, totalFound = 0, totalDecoded = 0,
     patterns = [], decodeCalls = [], filterCalls = []\<rparr>"

definition truncate :: "string \<Rightarrow> nat \<Rightarrow> string" where
  "truncate s maxLen = (if length s \<le> maxLen then s else take maxLen s @ ''...'')"

text \<open>The body of the inner loop after the cap test (lines 105-128).\<close>

definition processMatch :: "Config \<Rightarrow> RangeTable \<Rightarrow> string \<Rightarrow> Run \<Rightarrow> Run" where
  "processMatch cfg PrintRanges m st0 =
     (let st = st0\<lparr>totalFound := totalFound st0 + 1, decodeCalls := decodeCalls st0 @ [m]\<rparr>
      in case decodeBase64 cfg m of
        Inl err \<Rightarrow>
          if verbose cfg then
            st\<lparr>stderr := stderr st @ ''Line '' @ showNat (lineNum st)
                  @ '': decode error for '' @ [CHR 0x27] @ truncate m 20 @ [CHR 0x27]
                  @ '': '' @ showError err @ [CHR 0x0A]\<rparr>
          else st
      | Inr decoded \<Rightarrow>
          (let st1 = st\<lparr>filterCalls := filterCalls st @ [decoded]\<rparr>
           in if \<not> isValidOutput PrintRanges decoded then st1
              else
                (let st2 = st1\<lparr>totalDecoded := totalDecoded st1 + 1\<rparr>;
                     st3 = (if showOffset cfg
                            then st2\<lparr>stdout := stdout st2 @ ''Line '' @ showNat (lineNum st2)
                                   @ '': '' @ decoded @ [CHR 0x0A]\<rparr>
                            else st2\<lparr>stdout := stdout st2 @ decoded @ [CHR 0x0A]\<rparr>)
                 in if verbose cfg then st3\<lparr>patterns := patterns st3 @ [m]\<rparr> else st3)))"

definition capWarning :: string where
  "capWarning = ''Warning: reached maximum match limit ('' @ showNat maxMatches @ '')''
     @ [CHR 0x0A]"

definition statistics :: "Run \<Rightarrow> string" where
  "statistics st = [CHR 0x0A] @ ''Statistics:'' @ [CHR 0x0A]
     @ ''  Total patterns found: '' @ showNat (totalFound st) @ [CHR 0x0A]
     @ ''  Successfully decoded: '' @ showNat (totalDecoded st) @ [CHR 0x0A]"

text \<open>
  The loop over the matches of one line (lines 98-129). The flag is \<open>True\<close> when the loop
  left the function through \<open>return nil\<close> at the cap.
\<close>

fun matchLoop :: "Config \<Rightarrow> RangeTable \<Rightarrow> string list \<Rightarrow> Run \<Rightarrow> Run \<times> bool" where
  "matchLoop cfg PrintRanges [] st = (st, False)"
| "matchLoop cfg PrintRanges (m # ms) st =
     (if maxMatches \<le> totalFound st then
        ((if verbose cfg then st\<lparr>stderr := stderr st @ capWarning\<rparr> else st), True)
      else matchLoop cfg PrintRanges ms (processMatch cfg PrintRanges m st))"

text \<open>The loop over the lines the scanner delivers (lines 91-130).\<close>

fun lineLoop :: "Config \<Rightarrow> RangeTable \<Rightarrow> string list \<Rightarrow> Run \<Rightarrow> Run \<times> bool" where
  "lineLoop cfg PrintRanges [] st = (st, False)"
| "lineLoop cfg PrintRanges (line # rest) st =
     (case matchLoop cfg PrintRanges (findBase64Patterns cfg line)
             (st\<lparr>lineNum := lineNum st + 1\<rparr>) of
        (st', True) \<Rightarrow> (st', True)
      | (st', False) \<Rightarrow> lineLoop cfg PrintRanges rest st')"

text \<open>
  \<open>findAndDecode\<close> on a reader that delivers \<open>input\<close>: the final state and the error
  returned (\<open>None\<close> is \<open>nil\<close>).
\<close>

definition findAndDecode :: "Config \<Rightarrow> RangeTable \<Rightarrow> string \<Rightarrow> Run \<times> error option" where
  "findAndDecode cfg PrintRanges input =
     (case scanTokens input of
        (lines, scanErr) \<Rightarrow>
          (case lineLoop cfg PrintRanges lines initRun of
             (st, True) \<Rightarrow> (st, None)
           | (st, False) \<Rightarrow>
               (case scanErr of
                  Some e \<Rightarrow> (st, Some (ReadError e))
                | None \<Rightarrow>
                    ((if verbose cfg then st\<lparr>stderr := stderr st @ statistics st\<rparr> else st),
                     None))))"

text \<open>
  \<open>processFile\<close> on a file with the given content; \<open>None\<close> is a file that cannot be
  examined or opened.
\<close>

definition processFile :: "Config \<Rightarrow> RangeTable \<Rightarrow> string option \<Rightarrow> Run \<times> error option" where
  "processFile cfg PrintRanges file =
     (case file of
        None \<Rightarrow> (initRun, Some StatError)
      | Some content \<Rightarrow>
          if maxSize cfg < int (length content)
          then (initRun, Some (FileTooLarge (length content) (maxSize cfg)))
          else findAndDecode cfg PrintRanges content)"

section \<open>The decoder's order of attempts, in the specification's words\<close>

text \<open>
  The specification describes the decoder as an ordered list of variants tried in turn,
  the first success being returned. \<open>specVariants\<close> and \<open>specDecode\<close> follow that
  description; \<open>decodeBase64\<close> above follows the code.
\<close>

definition specVariants :: "Config \<Rightarrow> Encoding list" where
  "specVariants cfg =
     [StdEncoding] @ (if urlSafe cfg then [URLEncoding, RawURLEncoding] else [])
       @ [RawStdEncoding]"

fun specDecode :: "Encoding list \<Rightarrow> string \<Rightarrow> error + string" where
  "specDecode [] s = Inl InvalidBase64"
| "specDecode (enc # encs) s =
     (case DecodeString enc s of
        Inr decoded \<Rightarrow> Inr decoded
      | Inl _ \<Rightarrow> specDecode encs s)"

section \<open>Evaluating the model on concrete inputs\<close>

text \<open>The decode tables of the two alphabets, and the equations that evaluate each stage.\<close>

lemma zip_encodeStd:
  "zip encodeStd [0..<length encodeStd] = [
      (CHR ''A'', 0), (CHR ''B'', 1), (CHR ''C'', 2), (CHR ''D'', 3),
      (CHR ''E'', 4), (CHR ''F'', 5), (CHR ''G'', 6), (CHR ''H'', 7),
      (CHR ''I'', 8), (CHR ''J'', 9), (CHR ''K'', 10), (CHR ''L'', 11),
      (CHR ''M'', 12), (CHR ''N'', 13), (CHR ''O'', 14), (CHR ''P'', 15),
      (CHR ''Q'', 16), (CHR ''R'', 17), (CHR ''S'', 18), (CHR ''T'', 19),
      (CHR ''U'', 20), (CHR ''V'', 21), (CHR ''W'', 22), (CHR ''X'', 23),
      (CHR ''Y'', 24), (CHR ''Z'', 25), (CHR ''a'', 26), (CHR ''b'', 27),
      (CHR ''c'', 28), (CHR ''d'', 29), (CHR ''e'', 30), (CHR ''f'', 31),
      (CHR ''g'', 32), (CHR ''h'', 33), (CHR ''i'', 34), (CHR ''j'', 35),
      (CHR ''k'', 36), (CHR ''l'', 37), (CHR ''m'', 38), (CHR ''n'', 39),
      (CHR ''o'', 40), (CHR ''p'', 41), (CHR ''q'', 42), (CHR ''r'', 43),
      (CHR ''s'', 44), (CHR ''t'', 45), (CHR ''u'', 46), (CHR ''v'', 47),
      (CHR ''w'', 48), (CHR ''x'', 49), (CHR ''y'', 50), (CHR ''z'', 51),
      (CHR ''0'', 52), (CHR ''1'', 53), (CHR ''2'', 54), (CHR ''3'', 55),
      (CHR ''4'', 56), (CHR ''5'', 57), (CHR ''6'', 58), (CHR ''7'', 59),
      (CHR ''8'', 60), (CHR ''9'', 61), (CHR ''+'', 62), (CHR ''/'', 63)]"
  by (simp add: encodeStd_def upt_rec)

lemma zip_encodeURL:
  "zip encodeURL [0..<length encodeURL] = [
      (CHR ''A'', 0), (CHR ''B'', 1), (CHR ''C'', 2), (CHR ''D'', 3),
      (CHR ''E'', 4), (CHR ''F'', 5), (CHR ''G'', 6), (CHR ''H'', 7),
      (CHR ''I'', 8), (CHR ''J'', 9), (CHR ''K'', 10), (CHR ''L'', 11),
      (CHR ''M'', 12), (CHR ''N'', 13), (CHR ''O'', 14), (CHR ''P'', 15),
      (CHR ''Q'', 16), (CHR ''R'', 17), (CHR ''S'', 18), (CHR ''T'', 19),
      (CHR ''U'', 20), (CHR ''V'', 21), (CHR ''W'', 22), (CHR ''X'', 23),
      (CHR ''Y'', 24), (CHR ''Z'', 25), (CHR ''a'', 26), (CHR ''b'', 27),
      (CHR ''c'', 28), (CHR ''d'', 29), (CHR ''e'', 30), (CHR ''f'', 31),
      (CHR ''g'', 32), (CHR ''h'', 33), (CHR ''i'', 34), (CHR ''j'', 35),
      (CHR ''k'', 36), (CHR ''l'', 37), (CHR ''m'', 38), (CHR ''n'', 39),
      (CHR ''o'', 40), (CHR ''p'', 41), (CHR ''q'', 42), (CHR ''r'', 43),
      (CHR ''s'', 44), (CHR ''t'', 45), (CHR ''u'', 46), (CHR ''v'', 47),
      (CHR ''w'', 48), (CHR ''x'', 49), (CHR ''y'', 50), (CHR ''z'', 51),
      (CHR ''0'', 52), (CHR ''1'', 53), (CHR ''2'', 54), (CHR ''3'', 55),
      (CHR ''4'', 56), (CHR ''5'', 57), (CHR ''6'', 58), (CHR ''7'', 59),
      (CHR ''8'', 60), (CHR ''9'', 61), (CHR ''-'', 62), (CHR ''_'', 63)]"
  by (simp add: encodeURL_def upt_rec)

lemma defaultConfig_fields [simp]:
  "urlSafe defaultConfig = False"
  "minLength defaultConfig = 4"
  "maxSize defaultConfig = 104857600"
  "verbose defaultConfig = False"
  "showOffset defaultConfig = False"
  by (simp_all add: defaultConfig_def minB64Length_def maxFileSize_def)

lemmas decode_eval =
  decodeMap_def StdEncoding_def RawStdEncoding_def URLEncoding_def RawURLEncoding_def
  zip_encodeStd zip_encodeURL DecodeString_def Decode.simps isNewline_def
  assemble_def char_of_eq_iff decodeBase64_def

lemmas find_eval =
  findBase64Patterns_def matchAt_def stdB64Class_def urlB64Class_def
  isAlnum_def isPad_def isValidBase64Length_def TrimRight_def

lemmas filter_eval =
  isValidOutput_def runes.simps DecodeRuneInString_def first_def
  isCont_def IsPrint_def IsSpace_def RuneError_def push_bit_eq_mult

lemmas run_eval =
  processFile_def findAndDecode_def scanTokens.simps notLF_def dropCR_def
  chunkSize_def initRun_def processMatch_def maxMatches_def showNat.simps truncate_def
  statistics_def capWarning_def

section \<open>The order of the decode attempts\<close>

lemma specDecode_Inl:
  "specDecode encs s = Inl e \<longleftrightarrow>
     e = InvalidBase64 \<and> (\<forall>enc \<in> set encs. isl (DecodeString enc s))"
  by (induction encs) (auto split: sum.splits)

lemma specDecode_Inr:
  "specDecode encs s = Inr d \<Longrightarrow>
     \<exists>i < length encs. DecodeString (encs ! i) s = Inr d
        \<and> (\<forall>j < i. isl (DecodeString (encs ! j) s))"
proof (induction encs)
  case Nil
  then show ?case by simp
next
  case (Cons enc encs)
  show ?case
  proof (cases "DecodeString enc s")
    case (Inr d')
    with Cons.prems have "DecodeString ((enc # encs) ! 0) s = Inr d" by simp
    then show ?thesis by (intro exI[of _ 0]) simp
  next
    case (Inl e)
    with Cons.prems have "specDecode encs s = Inr d" by simp
    from Cons.IH[OF this] obtain i where i: "i < length encs"
      "DecodeString (encs ! i) s = Inr d" "\<forall>j < i. isl (DecodeString (encs ! j) s)"
      by blast
    have "\<forall>j < Suc i. isl (DecodeString ((enc # encs) ! j) s)"
      using i(3) Inl by (auto simp: less_Suc_eq_0_disj)
    with i(1,2) show ?thesis by (intro exI[of _ "Suc i"]) simp
  qed
qed

lemma decodeBase64_specDecode: "decodeBase64 cfg s = specDecode (specVariants cfg) s"
  by (simp add: decodeBase64_def specVariants_def split: sum.splits)

text \<open>
  Claim C3. For every candidate string the decoder tries, in this order, the standard
  alphabet with padding, then (only when \<open>urlSafe\<close>) the URL-safe alphabet with padding and
  the URL-safe alphabet without padding, then the standard alphabet without padding. It
  returns the result of the first variant that succeeds; it fails exactly when every
  attempted variant fails, and the error is then "invalid base64".
\<close>

theorem decodeBase64_order:
  "decodeBase64 cfg s = specDecode (specVariants cfg) s
   \<and> (decodeBase64 cfg s = Inl InvalidBase64
        \<longleftrightarrow> (\<forall>enc \<in> set (specVariants cfg). isl (DecodeString enc s)))
   \<and> (\<forall>e. decodeBase64 cfg s = Inl e \<longrightarrow> e = InvalidBase64)
   \<and> (\<forall>d. decodeBase64 cfg s = Inr d \<longrightarrow>
        (\<exists>i < length (specVariants cfg). DecodeString (specVariants cfg ! i) s = Inr d
            \<and> (\<forall>j < i. isl (DecodeString (specVariants cfg ! j) s))))"
  using specDecode_Inl[of "specVariants cfg" s] specDecode_Inr[of "specVariants cfg" s]
  by (simp add: decodeBase64_specDecode)

theorem decodeBase64_order_witness:
  "decodeBase64 (defaultConfig\<lparr>urlSafe := True\<rparr>) ''aGVsbG8td29ybGQ'' = Inr ''hello-world''
   \<and> specDecode (specVariants (defaultConfig\<lparr>urlSafe := True\<rparr>)) ''aGVsbG8td29ybGQ''
       = Inr ''hello-world''
   \<and> specVariants (defaultConfig\<lparr>urlSafe := True\<rparr>)
       = [StdEncoding, URLEncoding, RawURLEncoding, RawStdEncoding]
   \<and> isl (DecodeString StdEncoding ''aGVsbG8td29ybGQ'')
   \<and> isl (DecodeString URLEncoding ''aGVsbG8td29ybGQ'')
   \<and> DecodeString RawURLEncoding ''aGVsbG8td29ybGQ'' = Inr ''hello-world''"
proof -
  have a: "specVariants (defaultConfig\<lparr>urlSafe := True\<rparr>)
       = [StdEncoding, URLEncoding, RawURLEncoding, RawStdEncoding]"
    by (simp add: specVariants_def)
  have b: "isl (DecodeString StdEncoding ''aGVsbG8td29ybGQ'')"
    by (simp add: decode_eval)
  have c: "isl (DecodeString URLEncoding ''aGVsbG8td29ybGQ'')"
    by (simp add: decode_eval)
  have d: "DecodeString RawURLEncoding ''aGVsbG8td29ybGQ'' = Inr ''hello-world''"
    by (simp add: decode_eval)
  have e: "decodeBase64 (defaultConfig\<lparr>urlSafe := True\<rparr>) ''aGVsbG8td29ybGQ''
      = specDecode (specVariants (defaultConfig\<lparr>urlSafe := True\<rparr>)) ''aGVsbG8td29ybGQ''"
    by (rule conjunct1[OF decodeBase64_order])
  from b obtain x where b': "DecodeString StdEncoding ''aGVsbG8td29ybGQ'' = Inl x"
    by (auto simp: isl_def)
  from c obtain y where c': "DecodeString URLEncoding ''aGVsbG8td29ybGQ'' = Inl y"
    by (auto simp: isl_def)
  have f: "specDecode [StdEncoding, URLEncoding, RawURLEncoding, RawStdEncoding]
      ''aGVsbG8td29ybGQ'' = Inr ''hello-world''"
    by (simp add: b' c' d)
  show ?thesis
    unfolding e a f by (intro conjI refl b c d)
qed

section \<open>Facts about the loops of findAndDecode\<close>

text \<open>
  The candidates of a sequence of lines, in the order the loops meet them, and the
  candidates of an input.
\<close>

definition lineCandidates :: "Config \<Rightarrow> string list \<Rightarrow> string list" where
  "lineCandidates cfg lines = concat (map (findBase64Patterns cfg) lines)"

definition inputCandidates :: "Config \<Rightarrow> string \<Rightarrow> string list" where
  "inputCandidates cfg input = lineCandidates cfg (fst (scanTokens input))"

lemma lineCandidates_simps [simp]:
  "lineCandidates cfg [] = []"
  "lineCandidates cfg (l # ls) = findBase64Patterns cfg l @ lineCandidates cfg ls"
  "lineCandidates cfg (xs @ ys) = lineCandidates cfg xs @ lineCandidates cfg ys"
  by (simp_all add: lineCandidates_def)

lemma processMatch_lineNum [simp]:
  "lineNum (processMatch cfg P m st) = lineNum st"
  by (simp add: processMatch_def Let_def split: sum.splits)

lemma processMatch_totalFound [simp]:
  "totalFound (processMatch cfg P m st) = totalFound st + 1"
  by (simp add: processMatch_def Let_def split: sum.splits)

lemma processMatch_decodeCalls [simp]:
  "decodeCalls (processMatch cfg P m st) = decodeCalls st @ [m]"
  by (simp add: processMatch_def Let_def split: sum.splits)

lemma processMatch_filterCalls:
  "filterCalls (processMatch cfg P m st) =
     filterCalls st @ (case decodeBase64 cfg m of Inl e \<Rightarrow> [] | Inr d \<Rightarrow> [d])"
  by (simp add: processMatch_def Let_def split: sum.splits)

lemma processMatch_stdout:
  "stdout (processMatch cfg P m st) =
     stdout st @
       (case decodeBase64 cfg m of
          Inl e \<Rightarrow> []
        | Inr d \<Rightarrow>
            if isValidOutput P d
            then (if showOffset cfg then ''Line '' @ showNat (lineNum st) @ '': '' else [])
                   @ d @ [CHR 0x0A]
            else [])"
  by (simp add: processMatch_def Let_def split: sum.splits)

lemma processMatch_stderr_quiet [simp]:
  "\<not> verbose cfg \<Longrightarrow> stderr (processMatch cfg P m st) = stderr st"
  by (simp add: processMatch_def Let_def split: sum.splits)

lemma matchLoop_lineNum [simp]:
  "lineNum (fst (matchLoop cfg P ms st)) = lineNum st"
  by (induction ms arbitrary: st) auto

lemma matchLoop_stop:
  "snd (matchLoop cfg P ms st) \<longleftrightarrow> maxMatches - totalFound st < length ms"
  by (induction ms arbitrary: st) auto

lemma matchLoop_totalFound:
  "totalFound (fst (matchLoop cfg P ms st)) =
     totalFound st + min (length ms) (maxMatches - totalFound st)"
  by (induction ms arbitrary: st) auto

lemma matchLoop_decodeCalls:
  "decodeCalls (fst (matchLoop cfg P ms st)) =
     decodeCalls st @ take (maxMatches - totalFound st) ms"
proof (induction ms arbitrary: st)
  case Nil
  then show ?case by simp
next
  case (Cons m ms)
  show ?case
  proof (cases "maxMatches \<le> totalFound st")
    case True
    then show ?thesis by simp
  next
    case False
    then obtain k where k: "maxMatches - totalFound st = Suc k"
      by (cases "maxMatches - totalFound st") auto
    then have "maxMatches - (totalFound st + 1) = k" by simp
    with False k Cons.IH[of "processMatch cfg P m st"] show ?thesis by simp
  qed
qed

lemma matchLoop_filterCalls_subset:
  "set (filterCalls (fst (matchLoop cfg P ms st))) \<subseteq>
     set (filterCalls st) \<union> {d. \<exists>m \<in> set ms. decodeBase64 cfg m = Inr d}"
proof (induction ms arbitrary: st)
  case Nil
  then show ?case by simp
next
  case (Cons m ms)
  show ?case
  proof (cases "maxMatches \<le> totalFound st")
    case True
    then show ?thesis by auto
  next
    case False
    have "set (filterCalls (processMatch cfg P m st)) \<subseteq>
        set (filterCalls st) \<union> {d. decodeBase64 cfg m = Inr d}"
      by (auto simp: processMatch_filterCalls split: sum.splits)
    with Cons.IH[of "processMatch cfg P m st"] False show ?thesis
      by auto
  qed
qed

lemma lineLoop_Cons_stop:
  "snd (matchLoop cfg P (findBase64Patterns cfg l) (st\<lparr>lineNum := lineNum st + 1\<rparr>)) \<Longrightarrow>
     lineLoop cfg P (l # ls) st =
       (fst (matchLoop cfg P (findBase64Patterns cfg l) (st\<lparr>lineNum := lineNum st + 1\<rparr>)), True)"
  by (cases "matchLoop cfg P (findBase64Patterns cfg l) (st\<lparr>lineNum := lineNum st + 1\<rparr>)")
     simp

lemma lineLoop_Cons_go:
  "\<not> snd (matchLoop cfg P (findBase64Patterns cfg l) (st\<lparr>lineNum := lineNum st + 1\<rparr>)) \<Longrightarrow>
     lineLoop cfg P (l # ls) st =
       lineLoop cfg P ls
         (fst (matchLoop cfg P (findBase64Patterns cfg l) (st\<lparr>lineNum := lineNum st + 1\<rparr>)))"
  by (cases "matchLoop cfg P (findBase64Patterns cfg l) (st\<lparr>lineNum := lineNum st + 1\<rparr>)")
     simp

lemma lineLoop_stop:
  "snd (lineLoop cfg P lines st) \<longleftrightarrow>
     maxMatches - totalFound st < length (lineCandidates cfg lines)"
proof (induction lines arbitrary: st)
  case Nil
  then show ?case by simp
next
  case (Cons l ls)
  let ?st1 = "st\<lparr>lineNum := lineNum st + 1\<rparr>"
  let ?r = "matchLoop cfg P (findBase64Patterns cfg l) ?st1"
  show ?case
  proof (cases "snd ?r")
    case True
    then have "snd (lineLoop cfg P (l # ls) st)"
      by (simp only: lineLoop_Cons_stop snd_conv)
    moreover from True have "maxMatches - totalFound st < length (findBase64Patterns cfg l)"
      by (simp add: matchLoop_stop)
    ultimately show ?thesis by simp
  next
    case False
    then have eq: "lineLoop cfg P (l # ls) st = lineLoop cfg P ls (fst ?r)"
      by (rule lineLoop_Cons_go)
    from False have le: "length (findBase64Patterns cfg l) \<le> maxMatches - totalFound st"
      by (simp add: matchLoop_stop)
    then have "totalFound (fst ?r) = totalFound st + length (findBase64Patterns cfg l)"
      by (simp add: matchLoop_totalFound)
    with le show ?thesis
      unfolding eq Cons.IH by auto
  qed
qed

lemma lineLoop_totalFound:
  "totalFound (fst (lineLoop cfg P lines st)) =
     totalFound st + min (length (lineCandidates cfg lines)) (maxMatches - totalFound st)"
proof (induction lines arbitrary: st)
  case Nil
  then show ?case by simp
next
  case (Cons l ls)
  let ?st1 = "st\<lparr>lineNum := lineNum st + 1\<rparr>"
  let ?r = "matchLoop cfg P (findBase64Patterns cfg l) ?st1"
  show ?case
  proof (cases "snd ?r")
    case True
    then have "fst (lineLoop cfg P (l # ls) st) = fst ?r"
      by (simp only: lineLoop_Cons_stop fst_conv)
    moreover from True have "maxMatches - totalFound st < length (findBase64Patterns cfg l)"
      by (simp add: matchLoop_stop)
    ultimately show ?thesis by (simp add: matchLoop_totalFound)
  next
    case False
    then have eq: "lineLoop cfg P (l # ls) st = lineLoop cfg P ls (fst ?r)"
      by (rule lineLoop_Cons_go)
    from False have le: "length (findBase64Patterns cfg l) \<le> maxMatches - totalFound st"
      by (simp add: matchLoop_stop)
    then have "totalFound (fst ?r) = totalFound st + length (findBase64Patterns cfg l)"
      by (simp add: matchLoop_totalFound)
    with le show ?thesis
      unfolding eq Cons.IH by auto
  qed
qed

lemma lineLoop_decodeCalls:
  "decodeCalls (fst (lineLoop cfg P lines st)) =
     decodeCalls st @ take (maxMatches - totalFound st) (lineCandidates cfg lines)"
proof (induction lines arbitrary: st)
  case Nil
  then show ?case by simp
next
  case (Cons l ls)
  let ?st1 = "st\<lparr>lineNum := lineNum st + 1\<rparr>"
  let ?r = "matchLoop cfg P (findBase64Patterns cfg l) ?st1"
  show ?case
  proof (cases "snd ?r")
    case True
    then have "fst (lineLoop cfg P (l # ls) st) = fst ?r"
      by (simp only: lineLoop_Cons_stop fst_conv)
    moreover from True have "maxMatches - totalFound st < length (findBase64Patterns cfg l)"
      by (simp add: matchLoop_stop)
    ultimately show ?thesis by (simp add: matchLoop_decodeCalls)
  next
    case False
    then have eq: "lineLoop cfg P (l # ls) st = lineLoop cfg P ls (fst ?r)"
      by (rule lineLoop_Cons_go)
    from False have le: "length (findBase64Patterns cfg l) \<le> maxMatches - totalFound st"
      by (simp add: matchLoop_stop)
    then have "totalFound (fst ?r) = totalFound st + length (findBase64Patterns cfg l)"
      by (simp add: matchLoop_totalFound)
    with le show ?thesis
      unfolding eq Cons.IH by (simp add: matchLoop_decodeCalls)
  qed
qed

lemma lineLoop_filterCalls_subset:
  "set (filterCalls (fst (lineLoop cfg P lines st))) \<subseteq>
     set (filterCalls st)
       \<union> {d. \<exists>m \<in> set (lineCandidates cfg lines). decodeBase64 cfg m = Inr d}"
proof (induction lines arbitrary: st)
  case Nil
  then show ?case by simp
next
  case (Cons l ls)
  let ?st1 = "st\<lparr>lineNum := lineNum st + 1\<rparr>"
  let ?r = "matchLoop cfg P (findBase64Patterns cfg l) ?st1"
  have m: "set (filterCalls (fst ?r)) \<subseteq> set (filterCalls st)
      \<union> {d. \<exists>m \<in> set (findBase64Patterns cfg l). decodeBase64 cfg m = Inr d}"
    using matchLoop_filterCalls_subset[of cfg P "findBase64Patterns cfg l" ?st1] by simp
  show ?case
  proof (cases "snd ?r")
    case True
    then have "fst (lineLoop cfg P (l # ls) st) = fst ?r"
      by (simp only: lineLoop_Cons_stop fst_conv)
    with m show ?thesis by auto
  next
    case False
    then have eq: "lineLoop cfg P (l # ls) st = lineLoop cfg P ls (fst ?r)"
      by (rule lineLoop_Cons_go)
    from Cons.IH[of "fst ?r"] m show ?thesis
      unfolding eq by auto
  qed
qed

lemma findAndDecode_fst:
  "fst (findAndDecode cfg P input) =
     (let r = lineLoop cfg P (fst (scanTokens input)) initRun
      in if \<not> snd r \<and> snd (scanTokens input) = None \<and> verbose cfg
         then (fst r)\<lparr>stderr := stderr (fst r) @ statistics (fst r)\<rparr>
         else fst r)"
  by (simp add: findAndDecode_def Let_def split: prod.splits bool.splits option.splits)

lemma findAndDecode_decodeCalls:
  "decodeCalls (fst (findAndDecode cfg P input)) = take maxMatches (inputCandidates cfg input)"
  by (simp add: findAndDecode_fst Let_def lineLoop_decodeCalls inputCandidates_def initRun_def)

lemma findAndDecode_totalFound:
  "totalFound (fst (findAndDecode cfg P input)) =
     min (length (inputCandidates cfg input)) maxMatches"
  by (simp add: findAndDecode_fst Let_def lineLoop_totalFound inputCandidates_def initRun_def)

lemma findAndDecode_filterCalls_subset:
  "set (filterCalls (fst (findAndDecode cfg P input))) \<subseteq>
     {d. \<exists>m \<in> set (inputCandidates cfg input). decodeBase64 cfg m = Inr d}"
  using lineLoop_filterCalls_subset[of cfg P "fst (scanTokens input)" initRun]
  by (simp add: findAndDecode_fst Let_def inputCandidates_def initRun_def)

section \<open>Length validation\<close>

lemma isValidBase64Length_iff:
  "isValidBase64Length s \<longleftrightarrow> length (TrimRight s ''='') mod 4 \<noteq> 1"
proof -
  have "length (TrimRight s ''='') mod 4 < 4" by simp
  then show ?thesis
    unfolding isValidBase64Length_def Let_def by arith
qed

lemma collectMatches_subset:
  "set (fst (collectMatches cfg ms (acc, seen))) \<subseteq>
     set acc \<union> {m \<in> set ms. minLength cfg \<le> int (length m) \<and> isValidBase64Length m}"
proof (induction ms arbitrary: acc seen)
  case Nil
  then show ?case by simp
next
  case (Cons m ms)
  let ?ok = "\<lambda>x. minLength cfg \<le> int (length x) \<and> isValidBase64Length x"
  show ?case
  proof (cases "?ok m \<and> \<not> seen m")
    case True
    then have eq: "collectMatches cfg (m # ms) (acc, seen) =
        collectMatches cfg ms (acc @ [m], seen(m := True))"
      by simp
    have "set (acc @ [m]) \<union> {x \<in> set ms. ?ok x} \<subseteq> set acc \<union> {x \<in> set (m # ms). ?ok x}"
      using True by auto
    with Cons.IH[of "acc @ [m]" "seen(m := True)"] show ?thesis
      unfolding eq by (rule subset_trans)
  next
    case False
    then have eq: "collectMatches cfg (m # ms) (acc, seen) = collectMatches cfg ms (acc, seen)"
      by auto
    have "set acc \<union> {x \<in> set ms. ?ok x} \<subseteq> set acc \<union> {x \<in> set (m # ms). ?ok x}"
      by auto
    with Cons.IH[of acc seen] show ?thesis
      unfolding eq by (rule subset_trans)
  qed
qed

lemma findBase64Patterns_cases:
  assumes "m \<in> set (findBase64Patterns cfg line)"
  shows "minLength cfg \<le> int (length m) \<and> isValidBase64Length m
     \<and> (m \<in> set (FindAllString stdB64Class line)
          \<or> urlSafe cfg \<and> m \<in> set (FindAllString urlB64Class line))"
proof -
  let ?a = "collectMatches cfg (FindAllString stdB64Class line) ([], \<lambda>_. False)"
  have a: "set (fst ?a) \<subseteq>
      {m \<in> set (FindAllString stdB64Class line).
         minLength cfg \<le> int (length m) \<and> isValidBase64Length m}"
    using collectMatches_subset[of cfg "FindAllString stdB64Class line" "[]" "\<lambda>_. False"]
    by simp
  show ?thesis
  proof (cases "urlSafe cfg")
    case False
    with assms have "m \<in> set (fst ?a)"
      by (simp add: findBase64Patterns_def Let_def)
    with a show ?thesis by auto
  next
    case True
    with assms have "m \<in> set (fst (collectMatches cfg (FindAllString urlB64Class line) ?a))"
      by (simp add: findBase64Patterns_def Let_def)
    moreover have "set (fst (collectMatches cfg (FindAllString urlB64Class line) ?a)) \<subseteq>
        set (fst ?a) \<union> {m \<in> set (FindAllString urlB64Class line).
           minLength cfg \<le> int (length m) \<and> isValidBase64Length m}"
      using collectMatches_subset[of cfg "FindAllString urlB64Class line" "fst ?a" "snd ?a"]
      by simp
    ultimately show ?thesis using a True by auto
  qed
qed

lemma lineCandidates_valid:
  "m \<in> set (lineCandidates cfg lines) \<Longrightarrow> isValidBase64Length m"
  by (auto simp: lineCandidates_def dest: findBase64Patterns_cases)

text \<open>
  Claim C6. A candidate passes the length test exactly when its length without trailing
  \<^verbatim>\<open>=\<close> leaves remainder 0, 2 or 3 modulo 4. The test is applied before a match enters
  the result of the Candidate Finder: no element of the result, and so no argument of any
  call of the decoder in a run, has remainder 1.
\<close>

theorem length_validation:
  "(isValidBase64Length s \<longleftrightarrow> length (TrimRight s ''='') mod 4 \<in> {0, 2, 3})
   \<and> (\<forall>m \<in> set (findBase64Patterns cfg line). length (TrimRight m ''='') mod 4 \<noteq> 1)
   \<and> (\<forall>m \<in> set (decodeCalls (fst (findAndDecode cfg P input))).
         length (TrimRight m ''='') mod 4 \<noteq> 1)"
proof (intro conjI ballI)
  show "isValidBase64Length s \<longleftrightarrow> length (TrimRight s ''='') mod 4 \<in> {0, 2, 3}"
    by (auto simp: isValidBase64Length_def Let_def)
next
  fix m assume "m \<in> set (findBase64Patterns cfg line)"
  then have "isValidBase64Length m" by (auto dest: findBase64Patterns_cases)
  then show "length (TrimRight m ''='') mod 4 \<noteq> 1"
    by (simp add: isValidBase64Length_iff)
next
  fix m assume "m \<in> set (decodeCalls (fst (findAndDecode cfg P input)))"
  then have "m \<in> set (inputCandidates cfg input)"
    by (auto simp: findAndDecode_decodeCalls dest: in_set_takeD)
  then have "isValidBase64Length m"
    by (auto simp: inputCandidates_def dest: lineCandidates_valid)
  then show "length (TrimRight m ''='') mod 4 \<noteq> 1"
    by (simp add: isValidBase64Length_iff)
qed

theorem length_validation_witness:
  "\<not> isValidBase64Length ''AAAAB''
   \<and> length (TrimRight ''AAAAB'' ''='') mod 4 = 1
   \<and> FindAllString stdB64Class ''AAAAB AAAA=='' = [''AAAAB'', ''AAAA=='']
   \<and> findBase64Patterns defaultConfig ''AAAAB AAAA=='' = [''AAAA=='']
   \<and> length (TrimRight ''AAAA=='' ''='') mod 4 = 0
   \<and> decodeCalls (fst (findAndDecode defaultConfig (\<lambda>_. True) ''AAAAB AAAA=='')) = [''AAAA=='']"
proof -
  have a: "length (TrimRight ''AAAAB'' ''='') mod 4 = 1"
    by (simp add: TrimRight_def)
  have b: "findBase64Patterns defaultConfig ''AAAAB AAAA=='' = [''AAAA=='']"
    by (simp add: find_eval)
  have c: "FindAllString stdB64Class ''AAAAB AAAA=='' = [''AAAAB'', ''AAAA=='']"
    by (simp add: find_eval)
  have d: "scanTokens ''AAAAB AAAA=='' = ([''AAAAB AAAA==''], None)"
    by (simp add: run_eval)
  have e: "decodeCalls (fst (findAndDecode defaultConfig (\<lambda>_. True) ''AAAAB AAAA==''))
      = [''AAAA=='']"
    by (simp add: findAndDecode_decodeCalls inputCandidates_def d b maxMatches_def)
  note t = length_validation[of "''AAAAB''" defaultConfig "''AAAAB AAAA==''" "\<lambda>_. True"
      "''AAAAB AAAA==''"]
  from t a have f: "\<not> isValidBase64Length ''AAAAB''"
    by simp
  from t b have g: "length (TrimRight ''AAAA=='' ''='') mod 4 \<noteq> 1"
    by simp
  have h: "length (TrimRight ''AAAA=='' ''='') mod 4 = 0"
    by (simp add: TrimRight_def)
  from a b c e f h show ?thesis by blast
qed

section \<open>The output filter\<close>

text \<open>What the loop of \<open>isValidOutput\<close> computes, and what the function decides.\<close>

definition countsAsPrintable :: "RangeTable \<Rightarrow> nat \<Rightarrow> bool" where
  "countsAsPrintable PrintRanges r =
     (IsPrint PrintRanges r \<or> r = 0x0A \<or> r = 0x0D \<or> r = 0x09)"

lemma countPrintable_eq:
  "countPrintable P rs n =
     (if \<forall>r \<in> set rs. countsAsPrintable P r \<or> IsSpace r
      then Some (n + length (filter (countsAsPrintable P) rs))
      else None)"
  by (induction rs arbitrary: n) (auto simp: countsAsPrintable_def)

lemma isValidOutput_iff:
  "isValidOutput P s \<longleftrightarrow>
     s \<noteq> []
     \<and> (\<forall>r \<in> set (runes s). countsAsPrintable P r \<or> IsSpace r)
     \<and> 3 * length s \<le> 4 * length (filter (countsAsPrintable P) (runes s))"
proof (cases "s = []")
  case True
  then show ?thesis by (simp add: isValidOutput_def)
next
  case False
  then have "0 < real (length s)" by simp
  then have "(0.75 \<le> real k / real (length s)) \<longleftrightarrow> 3 * length s \<le> 4 * k" for k
  proof -
    assume pos: "0 < real (length s)"
    have "(0.75 \<le> real k / real (length s)) \<longleftrightarrow> real (3 * length s) \<le> real (4 * k)"
      using pos by (simp add: field_simps)
    also have "\<dots> \<longleftrightarrow> 3 * length s \<le> 4 * k"
      by (rule of_nat_le_iff)
    finally show ?thesis .
  qed
  with False show ?thesis
    by (simp add: isValidOutput_def countPrintable_eq)
qed

text \<open>
  Claim C1 (the code departs from it). The three-way classification and the immediate
  rejection are as claimed (\<open>isValidOutput_iff\<close>), but the ratio is taken over \<open>len(s)\<close>,
  the number of bytes, not over the number of characters scanned. The four bytes
  \<open>C3 A9 C3 A9\<close> are the two characters U+00E9, both printable: the printable count is 2
  of 2 characters, yet the filter computes 2/4 and rejects. The line \<^verbatim>\<open>w6nDqQ==\<close> decodes
  to these bytes, and the run prints nothing for it.
\<close>

theorem isValidOutput_counts_bytes:
  "runes [CHR 0xC3, CHR 0xA9, CHR 0xC3, CHR 0xA9] = [0xE9, 0xE9]
   \<and> IsPrint P 0xE9
   \<and> countPrintable P (runes [CHR 0xC3, CHR 0xA9, CHR 0xC3, CHR 0xA9]) 0 = Some 2
   \<and> length (runes [CHR 0xC3, CHR 0xA9, CHR 0xC3, CHR 0xA9]) = 2
   \<and> \<not> isValidOutput P [CHR 0xC3, CHR 0xA9, CHR 0xC3, CHR 0xA9]
   \<and> decodeBase64 defaultConfig ''w6nDqQ=='' = Inr [CHR 0xC3, CHR 0xA9, CHR 0xC3, CHR 0xA9]
   \<and> stdout (fst (findAndDecode defaultConfig P ''w6nDqQ=='')) = []
   \<and> filterCalls (fst (findAndDecode defaultConfig P ''w6nDqQ==''))
       = [[CHR 0xC3, CHR 0xA9, CHR 0xC3, CHR 0xA9]]"
proof -
  have a: "runes [CHR 0xC3, CHR 0xA9, CHR 0xC3, CHR 0xA9] = [0xE9, 0xE9]"
    by (simp add: filter_eval)
  have b: "IsPrint P 0xE9"
    by (simp add: IsPrint_def)
  have c: "countPrintable P [0xE9, 0xE9] 0 = Some 2"
    by (simp add: IsPrint_def)
  have d: "\<not> isValidOutput P [CHR 0xC3, CHR 0xA9, CHR 0xC3, CHR 0xA9]"
    by (simp add: isValidOutput_def a c)
  have e: "decodeBase64 defaultConfig ''w6nDqQ=='' = Inr [CHR 0xC3, CHR 0xA9, CHR 0xC3, CHR 0xA9]"
    by (simp add: decode_eval)
  have f: "findBase64Patterns defaultConfig ''w6nDqQ=='' = [''w6nDqQ=='']"
    by (simp add: find_eval)
  have g: "scanTokens ''w6nDqQ=='' = ([''w6nDqQ==''], None)"
    by (simp add: run_eval)
  have h: "fst (findAndDecode defaultConfig P ''w6nDqQ=='') =
      \<lparr>stdout = [], stderr = [], lineNum = 1, totalFound = 1, totalDecoded = 0,
       patterns = [], decodeCalls = [''w6nDqQ==''],
       filterCalls = [[CHR 0xC3, CHR 0xA9, CHR 0xC3, CHR 0xA9]]\<rparr>"
    by (simp add: findAndDecode_def g f processMatch_def e d initRun_def maxMatches_def)
  show ?thesis
    by (simp only: a c h d e b) simp
qed

section \<open>The end-to-end scenario\<close>

text \<open>
  Claim C2, as stated, has the candidate \<^verbatim>\<open>user\<close> decode to non-printable bytes. The
  pattern takes the \<^verbatim>\<open>=\<close> that follows: the candidate is \<^verbatim>\<open>user=\<close>, which passes the
  length test and which no variant decodes; \<^verbatim>\<open>user\<close> is not a candidate and the output
  filter never sees it.
\<close>

theorem scenario_user_counterexample:
  "findBase64Patterns defaultConfig ''user=aGVsbG8gd29ybGQ=&id=5''
     = [''user='', ''aGVsbG8gd29ybGQ='']
   \<and> ''user'' \<notin> set (findBase64Patterns defaultConfig ''user=aGVsbG8gd29ybGQ=&id=5'')
   \<and> decodeBase64 defaultConfig ''user='' = Inl InvalidBase64
   \<and> filterCalls (fst (processFile defaultConfig (\<lambda>_. True)
        (Some ''user=aGVsbG8gd29ybGQ=&id=5''))) = [''hello world'']"
proof -
  have a: "findBase64Patterns defaultConfig ''user=aGVsbG8gd29ybGQ=&id=5''
     = [''user='', ''aGVsbG8gd29ybGQ='']"
    by (simp add: find_eval)
  have b: "decodeBase64 defaultConfig ''user='' = Inl InvalidBase64"
    by (simp add: decode_eval)
  have c: "decodeBase64 defaultConfig ''aGVsbG8gd29ybGQ='' = Inr ''hello world''"
    by (simp add: decode_eval)
  have d: "isValidOutput (\<lambda>_. True) ''hello world''"
    by (simp add: filter_eval)
  have g: "scanTokens ''user=aGVsbG8gd29ybGQ=&id=5'' = ([''user=aGVsbG8gd29ybGQ=&id=5''], None)"
    by (simp add: run_eval)
  have h: "filterCalls (fst (processFile defaultConfig (\<lambda>_. True)
        (Some ''user=aGVsbG8gd29ybGQ=&id=5''))) = [''hello world'']"
    by (simp add: processFile_def findAndDecode_def g a processMatch_def b c d initRun_def
        maxMatches_def)
  show ?thesis
    by (simp only: a b h) simp
qed

text \<open>
  Claim C2, amended. For an input file holding the single line
  \<^verbatim>\<open>user=aGVsbG8gd29ybGQ=&id=5\<close> (with or without a final newline) and the default
  configuration, the standard output is exactly the line \<^verbatim>\<open>hello world\<close>, nothing is
  written to the diagnostic stream and no error is returned. The two candidates are
  \<^verbatim>\<open>user=\<close>, which fails to decode under every attempted variant and produces no output,
  and \<^verbatim>\<open>aGVsbG8gd29ybGQ=\<close>.
\<close>

theorem scenario_hello_world:
  "processFile defaultConfig P (Some ''user=aGVsbG8gd29ybGQ=&id=5'') =
     (\<lparr>stdout = ''hello world'' @ [CHR 0x0A], stderr = [], lineNum = 1, totalFound = 2,
       totalDecoded = 1, patterns = [],
       decodeCalls = [''user='', ''aGVsbG8gd29ybGQ=''],
       filterCalls = [''hello world'']\<rparr>, None)
   \<and> processFile defaultConfig P (Some (''user=aGVsbG8gd29ybGQ=&id=5'' @ [CHR 0x0A])) =
       processFile defaultConfig P (Some ''user=aGVsbG8gd29ybGQ=&id=5'')
   \<and> decodeBase64 defaultConfig ''user='' = Inl InvalidBase64
   \<and> decodeBase64 defaultConfig ''aGVsbG8gd29ybGQ='' = Inr ''hello world''"
proof -
  have a: "findBase64Patterns defaultConfig ''user=aGVsbG8gd29ybGQ=&id=5''
     = [''user='', ''aGVsbG8gd29ybGQ='']"
    by (simp add: find_eval)
  have b: "decodeBase64 defaultConfig ''user='' = Inl InvalidBase64"
    by (simp add: decode_eval)
  have c: "decodeBase64 defaultConfig ''aGVsbG8gd29ybGQ='' = Inr ''hello world''"
    by (simp add: decode_eval)
  have d: "isValidOutput P ''hello world''"
    by (simp add: filter_eval)
  have g: "scanTokens ''user=aGVsbG8gd29ybGQ=&id=5'' = ([''user=aGVsbG8gd29ybGQ=&id=5''], None)"
    by (simp add: run_eval)
  have g': "scanTokens ''user=aGVsbG8gd29ybGQ=&id=5\<newline>''
      = ([''user=aGVsbG8gd29ybGQ=&id=5''], None)"
    by (simp add: run_eval)
  have h: "processFile defaultConfig P (Some ''user=aGVsbG8gd29ybGQ=&id=5'') =
     (\<lparr>stdout = ''hello world'' @ [CHR 0x0A], stderr = [], lineNum = 1, totalFound = 2,
       totalDecoded = 1, patterns = [],
       decodeCalls = [''user='', ''aGVsbG8gd29ybGQ=''],
       filterCalls = [''hello world'']\<rparr>, None)"
    by (simp add: processFile_def findAndDecode_def g a processMatch_def b c d initRun_def
        maxMatches_def)
  have h': "processFile defaultConfig P (Some ''user=aGVsbG8gd29ybGQ=&id=5\<newline>'') =
     (\<lparr>stdout = ''hello world'' @ [CHR 0x0A], stderr = [], lineNum = 1, totalFound = 2,
       totalDecoded = 1, patterns = [],
       decodeCalls = [''user='', ''aGVsbG8gd29ybGQ=''],
       filterCalls = [''hello world'']\<rparr>, None)"
    by (simp add: processFile_def findAndDecode_def g' a processMatch_def b c d initRun_def
        maxMatches_def)
  show ?thesis
    by (simp add: h h' b c)
qed

theorem scenario_hello_world_witness:
  "stdout (fst (processFile defaultConfig (\<lambda>_. True) (Some ''user=aGVsbG8gd29ybGQ=&id=5'')))
     = ''hello world'' @ [CHR 0x0A]
   \<and> snd (processFile defaultConfig (\<lambda>_. True) (Some ''user=aGVsbG8gd29ybGQ=&id=5'')) = None"
  using scenario_hello_world[of "\<lambda>_. True"] by simp

end
